theory Spec2Isabelle
  imports Main "HOL-Library.AList" "HOL-Library.List_Lexorder" "HOL-Library.Char_ord"
begin

section \<open>pydantic2ts: the data the script works on\<close>

text \<open>
  The script \<^verbatim>\<open>pydantic2ts/cli/script.py\<close> inspects Python modules and classes, patches
  JSON schemas produced by pydantic and edits a generated TypeScript file. Python values
  are modelled as follows.
  \<^item> A JSON schema (\<^verbatim>\<open>Dict[str, Any]\<close>) is a \<open>json\<close> tree; a dict is an association
    list in insertion order, read with \<open>map_of\<close>. \<^verbatim>\<open>d.pop(k, None)\<close> is \<open>AList.delete\<close>,
    \<^verbatim>\<open>d[k] = v\<close> is \<open>AList.update\<close> (replace in place, or append).
  \<^item> Exceptions are values of \<open>error\<close>.
  \<^item> Objects that have an identity (modules, classes) live in a heap, a list of objects
    addressed by position; an attribute holding such an object holds its address.
\<close>

datatype error = AttributeError | TypeError | FileNotFoundError | NameError | ValueError

datatype json =
    JNull
  | JBool bool
  | JNum int
  | JStr string
  | JArr "json list"
  | JObj "(string \<times> json) list"

type_synonym pydict = "(string \<times> json) list"

text \<open>pydantic's \<^verbatim>\<open>Extra\<close> enumeration, the value of \<^verbatim>\<open>Config.extra\<close>.\<close>

datatype Extra = allow | ignore | forbid

type_synonym ref = nat

text \<open>
  A class: its \<^verbatim>\<open>__name__\<close>, the addresses of its proper ancestors (its \<^verbatim>\<open>__mro__\<close>
  without itself) and what reading \<^verbatim>\<open>model.Config.extra\<close> gives. In pydantic
  \<^verbatim>\<open>model.Config\<close> is the \<^verbatim>\<open>Config\<close> class as the model's author wrote it (the defaults
  are merged into \<^verbatim>\<open>model.__config__\<close>, not into it), so the attribute is missing, \<open>None\<close>
  here, when that class declares no \<^verbatim>\<open>extra\<close> and does not inherit pydantic's
  \<^verbatim>\<open>BaseConfig\<close>. A model without a \<^verbatim>\<open>Config\<close> of its own inherits \<^verbatim>\<open>BaseModel.Config\<close>,
  whose \<^verbatim>\<open>extra\<close> is \<^verbatim>\<open>Extra.ignore\<close>.
\<close>

record pyclass =
  cls_name :: string
  cls_bases :: "ref list"
  Config_extra :: "Extra option"

text \<open>
  An object met while inspecting a module: a module with its \<^verbatim>\<open>__name__\<close> and its
  namespace (attribute name, address of the value), a class, or anything else, with its
  \<^verbatim>\<open>__name__\<close> when it has one.
\<close>

datatype pyobj =
    Module string "(string \<times> ref) list"
  | Class pyclass
  | Other "string option"

type_synonym heap = "pyobj list"

section \<open>clean\_schema\<close>

text \<open>
  \<^verbatim>\<open>prop.pop('title', None)\<close> on one value of the \<^verbatim>\<open>properties\<close> dict. Only a dict
  accepts the call; a list has a one-argument \<^verbatim>\<open>pop\<close> (\<^verbatim>\<open>TypeError\<close>), the other JSON
  values have none (\<^verbatim>\<open>AttributeError\<close>).
\<close>

fun pop_title :: "json \<Rightarrow> error + json" where
  "pop_title (JObj d) = Inr (JObj (AList.delete ''title'' d))"
| "pop_title (JArr xs) = Inl TypeError"
| "pop_title v = Inl AttributeError"

text \<open>
  The loop \<^verbatim>\<open>for prop in ....values(): prop.pop('title', None)\<close>. The entries are
  mutated in place one after the other, so when an entry raises, the entries before it
  have lost their title and the rest is as it was.
\<close>

fun pop_titles :: "pydict \<Rightarrow> error option \<times> pydict" where
  "pop_titles [] = (None, [])"
| "pop_titles ((k, v) # ps) =
     (case pop_title v of
        Inl e \<Rightarrow> (Some e, (k, v) # ps)
      | Inr v' \<Rightarrow> (case pop_titles ps of (r, ps') \<Rightarrow> (r, (k, v') # ps')))"

text \<open>
  \<^verbatim>\<open>clean_schema(schema, model)\<close> returns nothing and mutates \<open>schema\<close>: the result is
  the outcome (\<open>Inr ()\<close>, or the exception raised) with the schema as it is afterwards.
  \<^verbatim>\<open>schema.get('properties', {})\<close> is the stored value or a fresh empty dict; a stored
  value that is not a dict has no \<^verbatim>\<open>values\<close> method. After the loop,
  \<^verbatim>\<open>model.Config.extra\<close> is read: a missing attribute raises \<^verbatim>\<open>AttributeError\<close>, with
  the titles already removed.
\<close>

definition clean_schema :: "pydict \<Rightarrow> pyclass \<Rightarrow> (error + unit) \<times> pydict" where
  "clean_schema schema model =
     (case (case map_of schema ''properties'' of None \<Rightarrow> JObj [] | Some p \<Rightarrow> p) of
        JObj props \<Rightarrow>
          (case pop_titles props of
             (Some e, props') \<Rightarrow>
               (Inl e, AList.map_entry ''properties'' (\<lambda>_. JObj props') schema)
           | (None, props') \<Rightarrow>
               (let schema' = AList.map_entry ''properties'' (\<lambda>_. JObj props') schema in
                case Config_extra model of
                  None \<Rightarrow> (Inl AttributeError, schema')
                | Some extra \<Rightarrow>
                    if extra \<noteq> allow
                    then (Inr (), AList.update ''additionalProperties'' (JBool False) schema')
                    else (Inr (), schema')))
      | _ \<Rightarrow> (Inl AttributeError, schema))"

section \<open>Model discovery\<close>

text \<open>
  The address of pydantic's \<^verbatim>\<open>BaseModel\<close> class: the first object of the heap.
\<close>

definition BaseModel :: ref where
  "BaseModel = 0"

text \<open>
  The object at an address. An address outside the heap stands for an object that is
  neither a module nor a class and has no \<^verbatim>\<open>__name__\<close>.
\<close>

definition obj_at :: "heap \<Rightarrow> ref \<Rightarrow> pyobj" where
  "obj_at h r = (if r < length h then h ! r else Other None)"

fun dunder_name :: "pyobj \<Rightarrow> string option" where
  "dunder_name (Module n ns) = Some n"
| "dunder_name (Class c) = Some (cls_name c)"
| "dunder_name (Other n) = n"

text \<open>\<^verbatim>\<open>getattr(obj, '__name__', '')\<close>\<close>

definition getattr_name :: "heap \<Rightarrow> ref \<Rightarrow> string" where
  "getattr_name h r = (case dunder_name (obj_at h r) of Some n \<Rightarrow> n | None \<Rightarrow> [])"

text \<open>\<^verbatim>\<open>s.startswith(p)\<close>\<close>

definition startswith :: "string \<Rightarrow> string \<Rightarrow> bool" where
  "startswith s p = (take (length p) s = p)"

text \<open>\<^verbatim>\<open>inspect.ismodule\<close>, \<^verbatim>\<open>inspect.isclass\<close> and \<^verbatim>\<open>issubclass\<close> (on a class).\<close>

definition ismodule :: "heap \<Rightarrow> ref \<Rightarrow> bool" where
  "ismodule h r = (case obj_at h r of Module n ns \<Rightarrow> True | _ \<Rightarrow> False)"

definition isclass :: "heap \<Rightarrow> ref \<Rightarrow> bool" where
  "isclass h r = (case obj_at h r of Class c \<Rightarrow> True | _ \<Rightarrow> False)"

definition issubclass :: "heap \<Rightarrow> ref \<Rightarrow> ref \<Rightarrow> bool" where
  "issubclass h r b =
     (case obj_at h r of Class c \<Rightarrow> r = b \<or> b \<in> set (cls_bases c) | _ \<Rightarrow> False)"

definition not_private :: "heap \<Rightarrow> ref \<Rightarrow> bool" where
  "not_private h obj = (\<not> startswith (getattr_name h obj) ''_'')"

definition is_submodule :: "heap \<Rightarrow> ref \<Rightarrow> string \<Rightarrow> bool" where
  "is_submodule h obj module_name =
     (not_private h obj \<and> ismodule h obj \<and>
      startswith (getattr_name h obj) (module_name @ ''.''))"

definition is_pydantic_model :: "heap \<Rightarrow> ref \<Rightarrow> bool" where
  "is_pydantic_model h obj =
     (not_private h obj \<and> isclass h obj \<and> issubclass h obj BaseModel \<and> obj \<noteq> BaseModel)"

text \<open>
  The attributes of a module with their values. Only the namespaces of modules are
  modelled: discovery never lists the members of anything else.
\<close>

fun namespace :: "pyobj \<Rightarrow> (string \<times> ref) list" where
  "namespace (Module n ns) = ns"
| "namespace _ = []"

text \<open>
  \<^verbatim>\<open>inspect.getmembers(object, predicate)\<close>: the (name, value) pairs of the object whose
  value satisfies the predicate, sorted by name.
\<close>

definition getmembers :: "heap \<Rightarrow> ref \<Rightarrow> (ref \<Rightarrow> bool) \<Rightarrow> (string \<times> ref) list" where
  "getmembers h object predicate =
     filter (\<lambda>kv. predicate (snd kv)) (sort_key fst (namespace (obj_at h object)))"

text \<open>
  The values the two loops of \<^verbatim>\<open>extract_pydantic_models\<close> run over: the members that are
  models, and the members that are submodules of this module, where
  \<^verbatim>\<open>module_name = module.__name__\<close> is the name of the module being listed.
\<close>

definition direct_models :: "heap \<Rightarrow> ref \<Rightarrow> ref list" where
  "direct_models h module = map snd (getmembers h module (is_pydantic_model h))"

definition submodules :: "heap \<Rightarrow> ref \<Rightarrow> ref list" where
  "submodules h module =
     map snd (getmembers h module (\<lambda>obj. is_submodule h obj (getattr_name h module)))"

text \<open>
  The recursion ends because a submodule's name is longer than its parent's, and the
  heap is finite: the room left for longer names shrinks.
\<close>

definition name_room :: "heap \<Rightarrow> ref \<Rightarrow> nat" where
  "name_room h r =
     sum_list (map (\<lambda>obj. length (case dunder_name obj of Some n \<Rightarrow> n | None \<Rightarrow> [])) h)
       - length (getattr_name h r)"

function extract_pydantic_models :: "heap \<Rightarrow> ref \<Rightarrow> ref list" where
  "extract_pydantic_models h module =
     direct_models h module @ concat (map (extract_pydantic_models h) (submodules h module))"
  by pat_completeness auto
termination
proof (relation "measure (\<lambda>(h, m). name_room h m)")
  show "wf (measure (\<lambda>(h, m). name_room h m))" by simp
next
  fix h :: heap and m s :: ref
  let ?f = "\<lambda>obj. length (case dunder_name obj of Some n \<Rightarrow> n | None \<Rightarrow> [])"
  assume "s \<in> set (submodules h m)"
  then have sub: "is_submodule h s (getattr_name h m)"
    by (auto simp: submodules_def getmembers_def)
  then have "startswith (getattr_name h s) (getattr_name h m @ ''.'')"
    by (simp add: is_submodule_def)
  then have "length (getattr_name h m @ ''.'') \<le> length (getattr_name h s)"
    unfolding startswith_def by (metis length_take min.cobounded1)
  then have lt: "length (getattr_name h m) < length (getattr_name h s)" by simp
  from sub have "ismodule h s" by (simp add: is_submodule_def)
  then have inh: "s < length h"
    by (auto simp: ismodule_def obj_at_def split: if_splits)
  then have "h ! s \<in> set h" by simp
  then have "?f (h ! s) \<le> sum_list (map ?f h)"
    by (intro member_le_sum_list) auto
  moreover have "?f (h ! s) = length (getattr_name h s)"
    using inh by (simp add: getattr_name_def obj_at_def)
  ultimately have "name_room h s < name_room h m"
    using lt by (simp add: name_room_def)
  then show "((h, s), (h, m)) \<in> measure (\<lambda>(h, m). name_room h m)" by simp
qed

declare extract_pydantic_models.simps [simp del]

text \<open>
  The modules \<^verbatim>\<open>extract_pydantic_models\<close> is called on, in the order of the calls: the
  module it is given, then, for each member of the second loop in turn, the modules of
  the recursive call on it. A module is in the list once for every call on it.
\<close>

function visits :: "heap \<Rightarrow> ref \<Rightarrow> ref list" where
  "visits h module = module # concat (map (visits h) (submodules h module))"
  by pat_completeness auto
termination
proof (relation "measure (\<lambda>(h, m). name_room h m)")
  show "wf (measure (\<lambda>(h, m). name_room h m))" by simp
next
  fix h :: heap and m s :: ref
  let ?f = "\<lambda>obj. length (case dunder_name obj of Some n \<Rightarrow> n | None \<Rightarrow> [])"
  assume "s \<in> set (submodules h m)"
  then have sub: "is_submodule h s (getattr_name h m)"
    by (auto simp: submodules_def getmembers_def)
  then have "length (getattr_name h m @ ''.'') \<le> length (getattr_name h s)"
    unfolding is_submodule_def startswith_def by (metis length_take min.cobounded1)
  then have lt: "length (getattr_name h m) < length (getattr_name h s)" by simp
  from sub have inh: "s < length h"
    by (auto simp: is_submodule_def ismodule_def obj_at_def split: if_splits)
  then have "?f (h ! s) \<le> sum_list (map ?f h)"
    by (intro member_le_sum_list) auto
  moreover have "?f (h ! s) = length (getattr_name h s)"
    using inh by (simp add: getattr_name_def obj_at_def)
  ultimately have "name_room h s < name_room h m"
    using lt by (simp add: name_room_def)
  then show "((h, s), (h, m)) \<in> measure (\<lambda>(h, m). name_room h m)" by simp
qed

declare visits.simps [simp del]

text \<open>
  A module is reached from the root when a chain of submodule steps, each as the second
  loop takes it, leads from the root to it.
\<close>

inductive reached :: "heap \<Rightarrow> ref \<Rightarrow> ref \<Rightarrow> bool" for h root where
  reached_root: "reached h root root"
| reached_step: "reached h root m \<Longrightarrow> s \<in> set (submodules h m) \<Longrightarrow> reached h root s"

section \<open>The container model\<close>

text \<open>
  A field definition handed to pydantic's \<^verbatim>\<open>create_model\<close>: the pair of the field's type
  (here the address of a class) and its default, where \<^verbatim>\<open>...\<close> (Ellipsis) marks a
  required field.
\<close>

datatype pydefault = Ellipsis | Default json

type_synonym field_definitions = "(string \<times> (ref \<times> pydefault)) list"

text \<open>
  The dict comprehension \<^verbatim>\<open>{m.__name__: (m, ...) for m in models}\<close>, from the dict built
  so far: a name seen before keeps its place and takes the new value.
\<close>

fun master_fields :: "heap \<Rightarrow> ref list \<Rightarrow> field_definitions \<Rightarrow> error + field_definitions" where
  "master_fields h [] d = Inr d"
| "master_fields h (m # ms) d =
     (case dunder_name (obj_at h m) of
        None \<Rightarrow> Inl AttributeError
      | Some n \<Rightarrow> master_fields h ms (AList.update n (m, Ellipsis) d))"

text \<open>
  \<^verbatim>\<open>create_model(name, **fields)\<close> is pydantic's, not the script's; it is modelled as
  pydantic 1 documents and implements it. A keyword whose name starts with an underscore
  is ignored with a warning, \<^verbatim>\<open>__root__\<close> apart (pydantic's own keywords \<^verbatim>\<open>__config__\<close>,
  \<^verbatim>\<open>__base__\<close>, \<^verbatim>\<open>__module__\<close> and \<^verbatim>\<open>__validators__\<close> are not field definitions and are
  outside the model). Every other keyword becomes a field of
  the new model class, in order, with the given type, required when its default is
  Ellipsis. A field name under which \<^verbatim>\<open>BaseModel\<close> has an attribute (\<^verbatim>\<open>Config\<close>, \<^verbatim>\<open>json\<close>,
  \<^verbatim>\<open>dict\<close>, \<^verbatim>\<open>copy\<close>, \<^verbatim>\<open>schema\<close> and so on) is refused with \<^verbatim>\<open>NameError\<close>, and a
  \<^verbatim>\<open>__root__\<close> field beside other fields with \<^verbatim>\<open>ValueError\<close>. The names of the attributes
  of \<^verbatim>\<open>BaseModel\<close> depend on the pydantic installed: they are the parameter
  \<open>base_attrs\<close>.
\<close>

record field =
  field_name :: string
  field_type :: ref
  field_required :: bool

record created_model =
  model_name :: string
  model_fields :: "field list"

definition is_valid_field :: "string \<Rightarrow> bool" where
  "is_valid_field name = (\<not> startswith name ''_'' \<or> name = ''__root__'')"

definition create_model ::
    "string list \<Rightarrow> string \<Rightarrow> field_definitions \<Rightarrow> error + created_model" where
  "create_model base_attrs name kwargs =
     (let fields = filter (\<lambda>kv. is_valid_field (fst kv)) kwargs in
      if list_ex (\<lambda>kv. fst kv \<in> set base_attrs) fields then Inl NameError
      else if list_ex (\<lambda>kv. fst kv = ''__root__'') fields \<and> 1 < length fields
      then Inl ValueError
      else Inr \<lparr>model_name = name,
                model_fields = map (\<lambda>kv. \<lparr>field_name = fst kv, field_type = fst (snd kv),
                                          field_required = (snd (snd kv) = Ellipsis)\<rparr>)
                                   fields\<rparr>)"

text \<open>Line 107 of \<^verbatim>\<open>main\<close>: the container built from the discovered models.\<close>

definition master_model :: "string list \<Rightarrow> heap \<Rightarrow> ref list \<Rightarrow> error + created_model" where
  "master_model base_attrs h models =
     (case master_fields h models [] of
        Inl e \<Rightarrow> Inl e
      | Inr kwargs \<Rightarrow> create_model base_attrs ''_Master_'' kwargs)"

section \<open>Removing the container from the generated file\<close>

definition CR :: char where
  "CR = CHR 0x0D"

definition LF :: char where
  "LF = CHR 0x0A"

text \<open>\<^verbatim>\<open>s.rstrip(chars)\<close>\<close>

definition rstrip :: "string \<Rightarrow> string \<Rightarrow> string" where
  "rstrip s chars = rev (dropWhile (\<lambda>c. c \<in> set chars) (rev s))"

text \<open>The two comparisons of the loop, on a line as \<^verbatim>\<open>readlines\<close> returns it.\<close>

definition is_start_line :: "string \<Rightarrow> bool" where
  "is_start_line line = (rstrip line [CR, LF] = ''export interface _Master_ {'')"

definition is_end_line :: "string \<Rightarrow> bool" where
  "is_end_line line = (rstrip line [CR, LF] = ''}'')"

text \<open>
  The loop over \<^verbatim>\<open>enumerate(lines)\<close>, from index \<open>i\<close> with the current value of
  \<^verbatim>\<open>start\<close>; it returns \<^verbatim>\<open>(start, end)\<close>, where \<open>None\<close> is Python's \<^verbatim>\<open>None\<close>.
\<close>

fun find_block :: "nat \<Rightarrow> nat option \<Rightarrow> string list \<Rightarrow> nat option \<times> nat option" where
  "find_block i start [] = (start, None)"
| "find_block i start (line # rest) =
     (if is_start_line line then find_block (Suc i) (Some i) rest
      else if start \<noteq> None \<and> is_end_line line then (start, Some i)
      else find_block (Suc i) start rest)"

text \<open>
  \<^verbatim>\<open>new_lines = lines[:start] + lines[(end + 1):]\<close>. A slice up to \<^verbatim>\<open>None\<close> is the whole
  list; \<^verbatim>\<open>None + 1\<close> raises \<^verbatim>\<open>TypeError\<close>.
\<close>

definition new_lines :: "string list \<Rightarrow> error + string list" where
  "new_lines lines =
     (case find_block 0 None lines of
        (start, end) \<Rightarrow>
          (let before = (case start of None \<Rightarrow> lines | Some s \<Rightarrow> take s lines) in
           case end of
             None \<Rightarrow> Inl TypeError
           | Some e \<Rightarrow> Inr (before @ drop (e + 1) lines)))"

text \<open>
  Reading a file opened in text mode: \<^verbatim>\<open>\r\n\<close> and \<^verbatim>\<open>\r\<close> are read as \<^verbatim>\<open>\n\<close>, and
  \<^verbatim>\<open>readlines\<close> cuts the text after each \<^verbatim>\<open>\n\<close>, keeping it.
\<close>

fun universal_newlines :: "string \<Rightarrow> string" where
  "universal_newlines [] = []"
| "universal_newlines [c] = (if c = CR then [LF] else [c])"
| "universal_newlines (c # d # cs) =
     (if c = CR \<and> d = LF then LF # universal_newlines cs
      else if c = CR then LF # universal_newlines (d # cs)
      else c # universal_newlines (d # cs))"

fun split_lines :: "string \<Rightarrow> string \<Rightarrow> string list" where
  "split_lines cur [] = (if cur = [] then [] else [cur])"
| "split_lines cur (c # cs) =
     (if c = LF then (cur @ [c]) # split_lines [] cs else split_lines (cur @ [c]) cs)"

definition readlines :: "string \<Rightarrow> string list" where
  "readlines content = split_lines [] (universal_newlines content)"

text \<open>
  The files, by path. \<^verbatim>\<open>remove_master_model_from_output(output)\<close> reads the file,
  computes the new lines and writes them back (\<^verbatim>\<open>writelines\<close> concatenates them); the
  result is the outcome with the files as they are afterwards. The file is opened for
  writing only after the new lines are computed.
\<close>

type_synonym files = "string \<rightharpoonup> string"

definition remove_master_model_from_output :: "string \<Rightarrow> files \<Rightarrow> (error + unit) \<times> files" where
  "remove_master_model_from_output output fs =
     (case fs output of
        None \<Rightarrow> (Inl FileNotFoundError, fs)
      | Some content \<Rightarrow>
          (case new_lines (readlines content) of
             Inl e \<Rightarrow> (Inl e, fs)
           | Inr ls \<Rightarrow> (Inr (), fs(output \<mapsto> concat ls))))"

section \<open>Example module graphs\<close>

text \<open>
  A package \<^verbatim>\<open>pkg\<close> that defines the model \<^verbatim>\<open>Foo\<close> and whose submodule \<^verbatim>\<open>pkg.sub\<close>
  imports it (\<^verbatim>\<open>from pkg import Foo\<close>): one class, bound in two modules.
\<close>

definition heap_shared :: heap where
  "heap_shared =
     [Class \<lparr>cls_name = ''BaseModel'', cls_bases = [], Config_extra = Some ignore\<rparr>,
      Module ''pkg'' [(''sub'', 3), (''Foo'', 2), (''BaseModel'', 0)],
      Class \<lparr>cls_name = ''Foo'', cls_bases = [0], Config_extra = Some ignore\<rparr>,
      Module ''pkg.sub'' [(''Foo'', 2), (''BaseModel'', 0)]]"

text \<open>
  A package \<^verbatim>\<open>pkg\<close> whose submodule \<^verbatim>\<open>pkg.sub\<close> imports its sibling \<^verbatim>\<open>pkg.other\<close>
  (\<^verbatim>\<open>from pkg import other\<close>), which defines the model \<^verbatim>\<open>Bar\<close>.
\<close>

definition heap_sibling :: heap where
  "heap_sibling =
     [Class \<lparr>cls_name = ''BaseModel'', cls_bases = [], Config_extra = Some ignore\<rparr>,
      Module ''pkg'' [(''sub'', 2)],
      Module ''pkg.sub'' [(''other'', 3)],
      Module ''pkg.other'' [(''Bar'', 4)],
      Class \<lparr>cls_name = ''Bar'', cls_bases = [0], Config_extra = Some ignore\<rparr>]"

text \<open>
  A package whose submodules \<^verbatim>\<open>pkg.a\<close> and \<^verbatim>\<open>pkg.b\<close> each define a model class named
  \<^verbatim>\<open>Foo\<close>: two classes with one name.
\<close>

definition heap_homonyms :: heap where
  "heap_homonyms =
     [Class \<lparr>cls_name = ''BaseModel'', cls_bases = [], Config_extra = Some ignore\<rparr>,
      Class \<lparr>cls_name = ''Foo'', cls_bases = [0], Config_extra = Some ignore\<rparr>,
      Class \<lparr>cls_name = ''Foo'', cls_bases = [0], Config_extra = Some allow\<rparr>,
      Module ''pkg'' [(''a'', 4), (''b'', 5)],
      Module ''pkg.a'' [(''Foo'', 1)],
      Module ''pkg.b'' [(''Foo'', 2)]]"

text \<open>
  A package \<^verbatim>\<open>pkg\<close> that re-exports the module \<^verbatim>\<open>pkg.a.models\<close> of its subpackage
  \<^verbatim>\<open>pkg.a\<close>, in which the class \<^verbatim>\<open>Foo\<close> is also bound as \<^verbatim>\<open>Alias\<close>: the module is
  reached along two chains, and the class is bound under two names.
\<close>

definition heap_two_paths :: heap where
  "heap_two_paths =
     [Class \<lparr>cls_name = ''BaseModel'', cls_bases = [], Config_extra = Some ignore\<rparr>,
      Module ''pkg'' [(''a'', 2), (''models'', 3)],
      Module ''pkg.a'' [(''models'', 3)],
      Module ''pkg.a.models'' [(''Foo'', 4), (''Alias'', 4)],
      Class \<lparr>cls_name = ''Foo'', cls_bases = [0], Config_extra = Some ignore\<rparr>]"

text \<open>
  A package with a model class named \<^verbatim>\<open>Config\<close>, and some of the names under which
  pydantic 1's \<^verbatim>\<open>BaseModel\<close> has an attribute.
\<close>

definition heap_shadow :: heap where
  "heap_shadow =
     [Class \<lparr>cls_name = ''BaseModel'', cls_bases = [], Config_extra = Some ignore\<rparr>,
      Module ''pkg'' [(''Config'', 2)],
      Class \<lparr>cls_name = ''Config'', cls_bases = [0], Config_extra = Some ignore\<rparr>]"

definition some_base_attrs :: "string list" where
  "some_base_attrs =
     [''Config'', ''construct'', ''copy'', ''dict'', ''json'', ''parse_obj'', ''parse_raw'',
      ''schema'', ''schema_json'', ''validate'']"

section \<open>Example files\<close>

text \<open>
  What json2ts writes for a module with the one model \<^verbatim>\<open>Foo\<close>; the same without the
  container, with Windows line ends; and a text in which the container's start line
  occurs twice before the closing brace.
\<close>

definition generated_two_models :: string where
  "generated_two_models =
     ''/* tslint:disable */'' @ [LF] @
     ''export interface Foo {'' @ [LF] @
     ''  a: number;'' @ [LF] @
     ''}'' @ [LF] @
     ''export interface _Master_ {'' @ [LF] @
     ''  Foo: Foo;'' @ [LF] @
     ''}'' @ [LF]"

definition generated_no_container :: string where
  "generated_no_container =
     ''export interface Foo {'' @ [CR, LF] @
     ''  a: number;'' @ [CR, LF] @
     ''}'' @ [CR, LF]"

definition generated_two_starts :: string where
  "generated_two_starts =
     ''export interface _Master_ {'' @ [LF] @
     ''export interface _Master_ {'' @ [LF] @
     ''}'' @ [LF]"


text \<open>
  The content section 4.4 of the specification describes, to compare with \<open>new_lines\<close>:
  all lines before the first start line, then all lines strictly after the first
  \<^verbatim>\<open>}\<close> line that follows it.
\<close>

definition spec_new_lines :: "string list \<Rightarrow> string list" where
  "spec_new_lines lines =
     takeWhile (\<lambda>l. \<not> is_start_line l) lines @
     drop 1 (dropWhile (\<lambda>l. \<not> is_end_line l)
       (drop 1 (dropWhile (\<lambda>l. \<not> is_start_line l) lines)))"

section \<open>Properties of clean\_schema\<close>

lemma clean_schema_ok_cases:
  assumes "clean_schema s m = (Inr (), s')"
  obtains ps ps' x where
    "(case map_of s ''properties'' of None \<Rightarrow> JObj [] | Some p \<Rightarrow> p) = JObj ps"
    "pop_titles ps = (None, ps')"
    "Config_extra m = Some x"
    "s' = (if x \<noteq> allow
           then AList.update ''additionalProperties'' (JBool False)
                  (AList.map_entry ''properties'' (\<lambda>_. JObj ps') s)
           else AList.map_entry ''properties'' (\<lambda>_. JObj ps') s)"
  using assms unfolding clean_schema_def
  by (auto split: json.splits option.splits prod.splits if_splits simp: Let_def)

text \<open>
  C3. The hook does not set the flag for every model whose policy is not
  \<^verbatim>\<open>Extra.allow\<close>. For a model whose own \<^verbatim>\<open>Config\<close> declares no \<^verbatim>\<open>extra\<close>, reading
  \<^verbatim>\<open>model.Config.extra\<close> raises \<^verbatim>\<open>AttributeError\<close> once the titles are removed, and
  \<^verbatim>\<open>additionalProperties\<close> is left absent.
\<close>

theorem clean_schema_missing_extra:
  "clean_schema [(''properties'', JObj [(''a'', JObj [(''title'', JStr ''A'')])])]
     \<lparr>cls_name = ''Foo'', cls_bases = [0], Config_extra = None\<rparr>
     = (Inl AttributeError, [(''properties'', JObj [(''a'', JObj [])])]) \<and>
   map_of (snd (clean_schema [(''properties'', JObj [(''a'', JObj [(''title'', JStr ''A'')])])]
     \<lparr>cls_name = ''Foo'', cls_bases = [0], Config_extra = None\<rparr>))
     ''additionalProperties'' = None"
  by (simp add: clean_schema_def)

text \<open>
  Where \<^verbatim>\<open>model.Config.extra\<close> can be read and the hook returns, the flag is as the
  docstring says: untouched for \<^verbatim>\<open>Extra.allow\<close>, \<^verbatim>\<open>False\<close> for every other value.
\<close>

lemma clean_schema_additionalProperties_returned:
  assumes "clean_schema s m = (Inr (), s')"
  shows "(Config_extra m = Some allow \<longrightarrow>
            map_of s' ''additionalProperties'' = map_of s ''additionalProperties'') \<and>
         (Config_extra m \<noteq> Some allow \<longrightarrow>
            map_of s' ''additionalProperties'' = Some (JBool False))"
  using assms
  by (elim clean_schema_ok_cases) (simp add: AList.update_conv' AList.map_of_map_entry)

text \<open>
  The hook returns normally when \<^verbatim>\<open>model.Config.extra\<close> can be read and the schema is one
  pydantic renders: one whose \<^verbatim>\<open>properties\<close>, when present, is a dict of dicts.
\<close>

lemma pop_titles_dicts:
  "\<forall>p \<in> set ps. \<exists>d. snd p = JObj d \<Longrightarrow> fst (pop_titles ps) = None"
proof (induction ps)
  case Nil
  show ?case by simp
next
  case (Cons p ps)
  obtain k v where p: "p = (k, v)" by (cases p)
  from Cons.prems p obtain d where "v = JObj d" by auto
  moreover from Cons have "fst (pop_titles ps) = None" by simp
  ultimately show ?case using p by (cases "pop_titles ps") simp
qed

lemma clean_schema_returns:
  assumes "Config_extra m = Some x"
    and "map_of s ''properties'' = None \<or>
           (\<exists>ps. map_of s ''properties'' = Some (JObj ps) \<and> (\<forall>p \<in> set ps. \<exists>d. snd p = JObj d))"
  shows "fst (clean_schema s m) = Inr ()"
  using assms(2)
proof
  assume "map_of s ''properties'' = None"
  then show ?thesis using assms(1) by (simp add: clean_schema_def Let_def)
next
  assume "\<exists>ps. map_of s ''properties'' = Some (JObj ps) \<and> (\<forall>p \<in> set ps. \<exists>d. snd p = JObj d)"
  then obtain ps where ps: "map_of s ''properties'' = Some (JObj ps)"
    and d: "\<forall>p \<in> set ps. \<exists>d. snd p = JObj d" by blast
  from pop_titles_dicts[OF d] obtain ps' where "pop_titles ps = (None, ps')"
    by (cases "pop_titles ps") simp
  with ps show ?thesis using assms(1) by (simp add: clean_schema_def Let_def)
qed

subsection \<open>Idempotence\<close>

lemma pop_titles_idem: "pop_titles (snd (pop_titles ps)) = pop_titles ps"
proof (induction ps)
  case Nil
  show ?case by simp
next
  case (Cons p ps)
  obtain k v where p: "p = (k, v)" by (cases p)
  show ?case
  proof (cases "pop_title v")
    case (Inl e)
    then show ?thesis using p by simp
  next
    case (Inr v')
    then obtain d where "v = JObj d" "v' = JObj (AList.delete ''title'' d)"
      by (cases v) auto
    then show ?thesis using p Cons.IH
      by (cases "pop_titles ps") (simp add: AList.delete_idem)
  qed
qed

lemma map_entry_const_twice:
  "AList.map_entry k (\<lambda>_. v) (AList.map_entry k (\<lambda>_. w) al) = AList.map_entry k (\<lambda>_. v) al"
  by (induction al) auto

lemma map_entry_update_swap:
  "k \<noteq> k' \<Longrightarrow>
   AList.map_entry k f (AList.update k' v al) = AList.update k' v (AList.map_entry k f al)"
  by (induction al) auto

text \<open>
  C6. Running the hook on the schema a first run has left gives the same outcome and the
  same schema as the first run: a second run changes nothing.
\<close>

theorem clean_schema_idempotent:
  "clean_schema (snd (clean_schema s m)) m = clean_schema s m"
proof (cases "map_of s ''properties''")
  case None
  then show ?thesis
    by (cases "Config_extra m")
      (simp_all add: clean_schema_def AList.update_conv' AList.map_of_map_entry Let_def
        map_entry_const_twice map_entry_update_swap)
next
  case (Some p)
  show ?thesis
  proof (cases p)
    case (JObj ps)
    obtain r ps' where r: "pop_titles ps = (r, ps')" by (cases "pop_titles ps")
    have r': "pop_titles ps' = (r, ps')" using pop_titles_idem[of ps] r by simp
    show ?thesis using Some JObj r r'
      by (cases r; cases "Config_extra m")
        (simp_all add: clean_schema_def AList.update_conv' AList.map_of_map_entry
          Let_def map_entry_const_twice map_entry_update_swap)
  qed (simp_all add: clean_schema_def Some)
qed

subsection \<open>Titles and frame\<close>

lemma delete_filter: "AList.delete k d = filter (\<lambda>e. fst e \<noteq> k) d"
  by (induction d) auto

lemma pop_title_Inr:
  "pop_title v = Inr v' \<longleftrightarrow>
     (\<exists>d. v = JObj d \<and> v' = JObj (filter (\<lambda>e. fst e \<noteq> ''title'') d))"
  by (cases v) (auto simp: delete_filter)

lemma pop_titles_ok:
  "pop_titles ps = (None, ps') \<Longrightarrow>
   list_all2 (\<lambda>p p'. fst p' = fst p \<and>
       (\<exists>d. snd p = JObj d \<and> snd p' = JObj (filter (\<lambda>e. fst e \<noteq> ''title'') d))) ps ps'"
proof (induction ps arbitrary: ps')
  case Nil
  then show ?case by simp
next
  case (Cons p ps)
  obtain k v where p: "p = (k, v)" by (cases p)
  obtain r qs where q: "pop_titles ps = (r, qs)" by (cases "pop_titles ps")
  from Cons.prems p q obtain v' where v': "pop_title v = Inr v'" and r: "r = None"
    and ps': "ps' = (k, v') # qs"
    by (auto split: sum.splits)
  from Cons.IH q r have "list_all2 (\<lambda>p p'. fst p' = fst p \<and>
       (\<exists>d. snd p = JObj d \<and> snd p' = JObj (filter (\<lambda>e. fst e \<noteq> ''title'') d))) ps qs"
    by simp
  then show ?case using p ps' v' by (simp add: pop_title_Inr)
qed

lemma pop_titles_frame:
  "pop_titles ps = (r, ps') \<Longrightarrow>
   list_all2 (\<lambda>p p'. fst p' = fst p \<and> (snd p' = snd p \<or>
       (\<exists>d. snd p = JObj d \<and> snd p' = JObj (filter (\<lambda>e. fst e \<noteq> ''title'') d)))) ps ps'"
proof (induction ps arbitrary: r ps')
  case Nil
  then show ?case by simp
next
  case (Cons p ps)
  obtain k v where p: "p = (k, v)" by (cases p)
  show ?case
  proof (cases "pop_title v")
    case (Inl e)
    with Cons.prems p have "ps' = p # ps" by simp
    then show ?thesis by (simp add: list_all2_refl)
  next
    case (Inr v')
    obtain r0 qs where q: "pop_titles ps = (r0, qs)" by (cases "pop_titles ps")
    with Cons.prems p Inr have ps': "ps' = (k, v') # qs" by simp
    show ?thesis using Cons.IH[OF q] p ps' Inr by (simp add: pop_title_Inr)
  qed
qed

lemma clean_schema_other_keys:
  "k \<noteq> ''additionalProperties'' \<Longrightarrow> k \<noteq> ''properties'' \<Longrightarrow>
   map_of (snd (clean_schema s m)) k = map_of s k"
  unfolding clean_schema_def
  by (auto split: json.splits option.splits prod.splits if_splits
      simp: Let_def AList.update_conv' AList.map_of_map_entry)

lemma clean_schema_properties:
  "map_of (snd (clean_schema s m)) ''properties'' =
     (case map_of s ''properties'' of
        Some (JObj ps) \<Rightarrow> Some (JObj (snd (pop_titles ps)))
      | x \<Rightarrow> x)"
  unfolding clean_schema_def
  by (auto split: json.splits option.splits prod.splits if_splits
      simp: Let_def AList.update_conv' AList.map_of_map_entry)

text \<open>
  C7. When the hook returns, every entry of the schema's \<^verbatim>\<open>properties\<close> is the dict it
  was with its \<^verbatim>\<open>title\<close> key removed (the same dict when it had none): the keys of the
  entries, their order, and the values under every other key, nested schemas included,
  are as before. The \<^verbatim>\<open>definitions\<close> of the schema, where pydantic puts the schemas
  of referenced models, are as before too.
\<close>

theorem clean_schema_titles:
  assumes "clean_schema s m = (Inr (), s')"
    and "map_of s ''properties'' = Some (JObj ps)"
  shows "\<exists>ps'. map_of s' ''properties'' = Some (JObj ps') \<and>
           list_all2 (\<lambda>p p'. fst p' = fst p \<and>
             (\<exists>d. snd p = JObj d \<and>
                  snd p' = JObj (filter (\<lambda>e. fst e \<noteq> ''title'') d))) ps ps' \<and>
           map_of s' ''definitions'' = map_of s ''definitions''"
proof -
  from assms(1) obtain qs qs' where
    a: "(case map_of s ''properties'' of None \<Rightarrow> JObj [] | Some p \<Rightarrow> p) = JObj qs"
    and b: "pop_titles qs = (None, qs')"
    by (rule clean_schema_ok_cases)
  from a assms(2) have "qs = ps" by simp
  with b have b': "pop_titles ps = (None, qs')" by simp
  have s': "s' = snd (clean_schema s m)" using assms(1) by simp
  have "map_of s' ''properties'' = Some (JObj qs')"
    using assms(2) b' by (simp add: s' clean_schema_properties)
  moreover have "map_of s' ''definitions'' = map_of s ''definitions''"
    unfolding s' by (rule clean_schema_other_keys) simp_all
  ultimately show ?thesis using pop_titles_ok[OF b'] by blast
qed

theorem clean_schema_titles_witness:
  "clean_schema
     [(''properties'', JObj [(''a'', JObj [(''title'', JStr ''A''), (''type'', JStr ''integer'')]),
                            (''b'', JObj [(''items'', JObj [(''title'', JStr ''Inner'')])])]),
      (''definitions'', JObj [(''Bar'', JObj [(''title'', JStr ''Bar'')])])]
     \<lparr>cls_name = ''Foo'', cls_bases = [0], Config_extra = Some allow\<rparr>
   = (Inr (),
      [(''properties'', JObj [(''a'', JObj [(''type'', JStr ''integer'')]),
                             (''b'', JObj [(''items'', JObj [(''title'', JStr ''Inner'')])])]),
       (''definitions'', JObj [(''Bar'', JObj [(''title'', JStr ''Bar'')])])]) \<and>
   (\<exists>ps'. map_of
      [(''properties'', JObj [(''a'', JObj [(''type'', JStr ''integer'')]),
                             (''b'', JObj [(''items'', JObj [(''title'', JStr ''Inner'')])])]),
       (''definitions'', JObj [(''Bar'', JObj [(''title'', JStr ''Bar'')])])] ''properties''
        = Some (JObj ps') \<and>
      list_all2 (\<lambda>p p'. fst p' = fst p \<and>
             (\<exists>d. snd p = JObj d \<and>
                  snd p' = JObj (filter (\<lambda>e. fst e \<noteq> ''title'') d)))
        [(''a'', JObj [(''title'', JStr ''A''), (''type'', JStr ''integer'')]),
         (''b'', JObj [(''items'', JObj [(''title'', JStr ''Inner'')])])] ps')"
proof -
  have run: "clean_schema
     [(''properties'', JObj [(''a'', JObj [(''title'', JStr ''A''), (''type'', JStr ''integer'')]),
                            (''b'', JObj [(''items'', JObj [(''title'', JStr ''Inner'')])])]),
      (''definitions'', JObj [(''Bar'', JObj [(''title'', JStr ''Bar'')])])]
     \<lparr>cls_name = ''Foo'', cls_bases = [0], Config_extra = Some allow\<rparr>
   = (Inr (),
      [(''properties'', JObj [(''a'', JObj [(''type'', JStr ''integer'')]),
                             (''b'', JObj [(''items'', JObj [(''title'', JStr ''Inner'')])])]),
       (''definitions'', JObj [(''Bar'', JObj [(''title'', JStr ''Bar'')])])])"
    by (simp add: clean_schema_def)
  from clean_schema_titles[OF run] run show ?thesis by simp
qed

text \<open>
  C10. Whatever the outcome of the hook, the schema afterwards differs from the schema
  before in nothing but the top-level key \<^verbatim>\<open>additionalProperties\<close> and the
  \<^verbatim>\<open>title\<close> keys of the entries of \<^verbatim>\<open>properties\<close>: every other top-level key is bound
  as before, and \<^verbatim>\<open>properties\<close>, when present, has the same entry names in the same
  order, each entry being the value it was or the dict it was without its \<^verbatim>\<open>title\<close> key.
\<close>

theorem clean_schema_frame:
  "(\<forall>k. k \<noteq> ''additionalProperties'' \<and> k \<noteq> ''properties'' \<longrightarrow>
        map_of (snd (clean_schema s m)) k = map_of s k) \<and>
   (map_of s ''properties'' = None \<longrightarrow> map_of (snd (clean_schema s m)) ''properties'' = None) \<and>
   (\<forall>v. map_of s ''properties'' = Some v \<longrightarrow>
      (\<exists>v'. map_of (snd (clean_schema s m)) ''properties'' = Some v' \<and>
         (v' = v \<or>
          (\<exists>ps ps'. v = JObj ps \<and> v' = JObj ps' \<and>
             list_all2 (\<lambda>p p'. fst p' = fst p \<and> (snd p' = snd p \<or>
               (\<exists>d. snd p = JObj d \<and>
                    snd p' = JObj (filter (\<lambda>e. fst e \<noteq> ''title'') d)))) ps ps'))))"
proof (intro conjI allI impI)
  fix k assume "k \<noteq> ''additionalProperties'' \<and> k \<noteq> ''properties''"
  then show "map_of (snd (clean_schema s m)) k = map_of s k"
    by (simp add: clean_schema_other_keys)
next
  assume "map_of s ''properties'' = None"
  then show "map_of (snd (clean_schema s m)) ''properties'' = None"
    by (simp add: clean_schema_properties)
next
  fix v assume v: "map_of s ''properties'' = Some v"
  show "\<exists>v'. map_of (snd (clean_schema s m)) ''properties'' = Some v' \<and>
         (v' = v \<or>
          (\<exists>ps ps'. v = JObj ps \<and> v' = JObj ps' \<and>
             list_all2 (\<lambda>p p'. fst p' = fst p \<and> (snd p' = snd p \<or>
               (\<exists>d. snd p = JObj d \<and>
                    snd p' = JObj (filter (\<lambda>e. fst e \<noteq> ''title'') d)))) ps ps'))"
  proof (cases v)
    case (JObj ps)
    obtain r ps' where r: "pop_titles ps = (r, ps')" by (cases "pop_titles ps")
    have "map_of (snd (clean_schema s m)) ''properties'' = Some (JObj ps')"
      using v JObj r by (simp add: clean_schema_properties)
    then show ?thesis using pop_titles_frame[OF r] JObj by blast
  qed (use v in \<open>simp_all add: clean_schema_properties\<close>)
qed

theorem clean_schema_frame_witness:
  "map_of (snd (clean_schema
      [(''title'', JStr ''Foo''),
       (''properties'', JObj [(''a'', JObj [(''title'', JStr ''A''), (''type'', JStr ''integer'')])])]
      \<lparr>cls_name = ''Foo'', cls_bases = [0], Config_extra = Some ignore\<rparr>)) ''title''
     = Some (JStr ''Foo'') \<and>
   map_of (snd (clean_schema
      [(''title'', JStr ''Foo''),
       (''properties'', JObj [(''a'', JObj [(''title'', JStr ''A''), (''type'', JStr ''integer'')])])]
      \<lparr>cls_name = ''Foo'', cls_bases = [0], Config_extra = Some ignore\<rparr>)) ''properties''
     = Some (JObj [(''a'', JObj [(''type'', JStr ''integer'')])]) \<and>
   map_of (snd (clean_schema [(''type'', JStr ''object'')]
      \<lparr>cls_name = ''Foo'', cls_bases = [0], Config_extra = Some ignore\<rparr>)) ''properties'' = None \<and>
   (\<exists>v'. map_of (snd (clean_schema
      [(''title'', JStr ''Foo''),
       (''properties'', JObj [(''a'', JObj [(''title'', JStr ''A''), (''type'', JStr ''integer'')])])]
      \<lparr>cls_name = ''Foo'', cls_bases = [0], Config_extra = Some ignore\<rparr>)) ''properties'' = Some v' \<and>
      (v' = JObj [(''a'', JObj [(''title'', JStr ''A''), (''type'', JStr ''integer'')])] \<or>
       (\<exists>ps ps'. JObj [(''a'', JObj [(''title'', JStr ''A''), (''type'', JStr ''integer'')])] = JObj ps \<and>
          v' = JObj ps' \<and>
          list_all2 (\<lambda>p p'. fst p' = fst p \<and> (snd p' = snd p \<or>
               (\<exists>d. snd p = JObj d \<and>
                    snd p' = JObj (filter (\<lambda>e. fst e \<noteq> ''title'') d)))) ps ps')))"
proof -
  let ?s = "[(''title'', JStr ''Foo''),
       (''properties'', JObj [(''a'', JObj [(''title'', JStr ''A''), (''type'', JStr ''integer'')])])]"
  let ?m = "\<lparr>cls_name = ''Foo'', cls_bases = [0], Config_extra = Some ignore\<rparr>"
  have a: "map_of (snd (clean_schema ?s ?m)) ''title'' = map_of ?s ''title''"
    by (rule clean_schema_frame[of ?s ?m, THEN conjunct1, rule_format]) simp
  have b: "map_of (snd (clean_schema [(''type'', JStr ''object'')] ?m)) ''properties'' = None"
    by (rule clean_schema_frame[THEN conjunct2, THEN conjunct1, rule_format]) simp
  have c: "map_of (snd (clean_schema ?s ?m)) ''properties''
     = Some (JObj [(''a'', JObj [(''type'', JStr ''integer'')])])"
    by (simp add: clean_schema_def)
  have d: "\<exists>v'. map_of (snd (clean_schema ?s ?m)) ''properties'' = Some v' \<and>
      (v' = JObj [(''a'', JObj [(''title'', JStr ''A''), (''type'', JStr ''integer'')])] \<or>
       (\<exists>ps ps'. JObj [(''a'', JObj [(''title'', JStr ''A''), (''type'', JStr ''integer'')])] = JObj ps \<and>
          v' = JObj ps' \<and>
          list_all2 (\<lambda>p p'. fst p' = fst p \<and> (snd p' = snd p \<or>
               (\<exists>d. snd p = JObj d \<and>
                    snd p' = JObj (filter (\<lambda>e. fst e \<noteq> ''title'') d)))) ps ps'))"
    by (rule clean_schema_frame[THEN conjunct2, THEN conjunct2, rule_format]) simp
  from a have a': "map_of (snd (clean_schema ?s ?m)) ''title'' = Some (JStr ''Foo'')" by simp
  show ?thesis by (intro conjI a' b c d)
qed

section \<open>Properties of model discovery\<close>

lemma set_getmembers [simp]:
  "set (getmembers h m P) = {kv \<in> set (namespace (obj_at h m)). P (snd kv)}"
  by (auto simp: getmembers_def)

text \<open>
  C8. A value bound in a module is collected by the first loop exactly when it is a class,
  its \<^verbatim>\<open>__name__\<close> does not start with an underscore, it is a subclass of \<^verbatim>\<open>BaseModel\<close>
  and it is not \<^verbatim>\<open>BaseModel\<close> itself. The name tested is the class's own \<^verbatim>\<open>__name__\<close>.
\<close>

theorem direct_models_iff:
  "x \<in> set (direct_models h m) \<longleftrightarrow>
     x \<in> snd ` set (namespace (obj_at h m)) \<and>
     isclass h x \<and> \<not> startswith (getattr_name h x) ''_'' \<and>
     issubclass h x BaseModel \<and> x \<noteq> BaseModel"
  by (auto simp: direct_models_def is_pydantic_model_def not_private_def)

theorem direct_models_iff_witness:
  "2 \<in> set (direct_models heap_shared 1) \<and> 0 \<notin> set (direct_models heap_shared 1)"
proof
  show "2 \<in> set (direct_models heap_shared 1)"
    by (subst direct_models_iff) code_simp
  show "0 \<notin> set (direct_models heap_shared 1)"
    by (subst direct_models_iff) code_simp
qed

text \<open>
  C5, as the code has it. A value bound in a module is recursed into exactly when it is
  not private, is a module, and its name starts with the name of the module being listed
  followed by a dot. This holds for every module, so at each level of the recursion the
  prefix is the name of the immediate parent; it is the root's name at the root only.
\<close>

theorem submodules_iff:
  assumes "x \<in> snd ` set (namespace (obj_at h m))"
  shows "x \<in> set (submodules h m) \<longleftrightarrow>
     not_private h x \<and> ismodule h x \<and>
     startswith (getattr_name h x) (getattr_name h m @ ''.'')"
  using assms by (auto simp: submodules_def is_submodule_def)

theorem submodules_iff_witness:
  "3 \<in> snd ` set (namespace (obj_at heap_sibling 2)) \<and>
   \<not> startswith (getattr_name heap_sibling 3) (getattr_name heap_sibling 2 @ ''.'') \<and>
   3 \<notin> set (submodules heap_sibling 2)"
proof -
  have a: "3 \<in> snd ` set (namespace (obj_at heap_sibling 2))" by code_simp
  have b: "\<not> startswith (getattr_name heap_sibling 3) (getattr_name heap_sibling 2 @ ''.'')"
    by code_simp
  from submodules_iff[OF a] b have "3 \<notin> set (submodules heap_sibling 2)" by simp
  with a b show ?thesis by simp
qed

text \<open>
  The claim with the root's name as the prefix at every level fails: \<^verbatim>\<open>pkg.sub\<close> is
  reached from the root \<^verbatim>\<open>pkg\<close>, its member \<^verbatim>\<open>pkg.other\<close> is a non-private module whose
  name starts with \<^verbatim>\<open>pkg.\<close>, and it is not recursed into; its model is not discovered.
\<close>

theorem submodules_root_prefix_counterexample:
  "reached heap_sibling 1 2 \<and>
   3 \<in> snd ` set (namespace (obj_at heap_sibling 2)) \<and>
   not_private heap_sibling 3 \<and> ismodule heap_sibling 3 \<and>
   startswith (getattr_name heap_sibling 3) (getattr_name heap_sibling 1 @ ''.'') \<and>
   3 \<notin> set (submodules heap_sibling 2) \<and>
   extract_pydantic_models heap_sibling 1 = []"
proof -
  have "2 \<in> set (submodules heap_sibling 1)" by code_simp
  then have "reached heap_sibling 1 2" by (rule reached_step[OF reached_root])
  moreover have "3 \<in> snd ` set (namespace (obj_at heap_sibling 2))" by code_simp
  moreover have "not_private heap_sibling 3" by code_simp
  moreover have "ismodule heap_sibling 3" by code_simp
  moreover have
    "startswith (getattr_name heap_sibling 3) (getattr_name heap_sibling 1 @ ''.'')"
    by code_simp
  moreover have "3 \<notin> set (submodules heap_sibling 2)" by code_simp
  moreover have "extract_pydantic_models heap_sibling 1 = []" by code_simp
  ultimately show ?thesis by (intro conjI)
qed

subsection \<open>What the returned list holds\<close>

lemma reached_trans:
  "reached h m s \<Longrightarrow> reached h root m \<Longrightarrow> reached h root s"
  by (induction rule: reached.induct) (auto intro: reached.intros)

lemma extract_sub_subset:
  "s \<in> set (submodules h m) \<Longrightarrow>
   set (extract_pydantic_models h s) \<subseteq> set (extract_pydantic_models h m)"
  by (subst (2) extract_pydantic_models.simps) auto

lemma extract_reached_subset:
  "reached h root m \<Longrightarrow>
   set (extract_pydantic_models h m) \<subseteq> set (extract_pydantic_models h root)"
proof (induction rule: reached.induct)
  case reached_root
  show ?case by simp
next
  case (reached_step m s)
  from extract_sub_subset[OF reached_step.hyps(2)] reached_step.IH
  show ?case by (rule subset_trans)
qed

lemma direct_in_extract:
  "set (direct_models h m) \<subseteq> set (extract_pydantic_models h m)"
  by (subst extract_pydantic_models.simps) simp

lemma extract_sound:
  "c \<in> set (extract_pydantic_models h root) \<Longrightarrow>
   \<exists>m. reached h root m \<and> c \<in> set (direct_models h m)"
proof (induction h root rule: extract_pydantic_models.induct)
  case (1 h m)
  from "1.prems" have "c \<in> set (direct_models h m) \<or>
      (\<exists>s \<in> set (submodules h m). c \<in> set (extract_pydantic_models h s))"
    by (subst (asm) extract_pydantic_models.simps) auto
  then show ?case
  proof
    assume "c \<in> set (direct_models h m)"
    then show ?thesis using reached_root by blast
  next
    assume "\<exists>s \<in> set (submodules h m). c \<in> set (extract_pydantic_models h s)"
    then obtain s where s: "s \<in> set (submodules h m)"
      and c: "c \<in> set (extract_pydantic_models h s)" by blast
    from "1.IH"[OF s c] obtain m' where "reached h s m'" "c \<in> set (direct_models h m')"
      by blast
    moreover have "reached h m s" using reached_step[OF reached_root s] .
    ultimately show ?thesis using reached_trans by blast
  qed
qed

text \<open>
  The list returned for a root module holds exactly the models bound in the root or in a
  module reached from it through submodule steps.
\<close>

lemma extract_pydantic_models_set:
  "set (extract_pydantic_models h root) =
     {c. \<exists>m. reached h root m \<and> c \<in> set (direct_models h m)}"
proof (intro set_eqI iffI)
  fix c assume "c \<in> set (extract_pydantic_models h root)"
  then show "c \<in> {c. \<exists>m. reached h root m \<and> c \<in> set (direct_models h m)}"
    using extract_sound by simp
next
  fix c assume "c \<in> {c. \<exists>m. reached h root m \<and> c \<in> set (direct_models h m)}"
  then obtain m where m: "reached h root m" and c: "c \<in> set (direct_models h m)" by blast
  from c direct_in_extract have "c \<in> set (extract_pydantic_models h m)" by blast
  with extract_reached_subset[OF m] show "c \<in> set (extract_pydantic_models h root)"
    by blast
qed

subsection \<open>How often a model is listed\<close>

lemma concat_map_concat:
  "concat (map (\<lambda>s. concat (map f (g s))) xs) = concat (map f (concat (map g xs)))"
  by (induction xs) simp_all

lemma extract_visits:
  "extract_pydantic_models h root = concat (map (direct_models h) (visits h root))"
proof (induction h root rule: extract_pydantic_models.induct)
  case (1 h m)
  have "concat (map (extract_pydantic_models h) (submodules h m)) =
        concat (map (\<lambda>s. concat (map (direct_models h) (visits h s))) (submodules h m))"
    using "1.IH" by (auto intro: arg_cong[where f = concat])
  also have "\<dots> = concat (map (direct_models h) (concat (map (visits h) (submodules h m))))"
    by (rule concat_map_concat)
  finally show ?case
    by (subst extract_pydantic_models.simps, subst visits.simps) simp
qed

lemma visits_self: "m \<in> set (visits h m)"
  by (subst visits.simps) simp

lemma visits_sub_subset:
  "s \<in> set (submodules h m) \<Longrightarrow> set (visits h s) \<subseteq> set (visits h m)"
  by (subst (2) visits.simps) auto

lemma visits_reached: "x \<in> set (visits h root) \<Longrightarrow> reached h root x"
proof (induction h root rule: visits.induct)
  case (1 h m)
  from "1.prems" have "x = m \<or> (\<exists>s \<in> set (submodules h m). x \<in> set (visits h s))"
    by (subst (asm) visits.simps) auto
  then show ?case
  proof
    assume "x = m"
    then show ?thesis by (simp add: reached_root)
  next
    assume "\<exists>s \<in> set (submodules h m). x \<in> set (visits h s)"
    then obtain s where s: "s \<in> set (submodules h m)" and x: "x \<in> set (visits h s)"
      by blast
    have "reached h m s" using reached_step[OF reached_root s] .
    with "1.IH"[OF s x] show ?thesis
      by (induction rule: reached.induct) (auto intro: reached.intros)
  qed
qed

lemma reached_visits: "reached h root x \<Longrightarrow> set (visits h x) \<subseteq> set (visits h root)"
proof (induction rule: reached.induct)
  case reached_root
  show ?case by simp
next
  case (reached_step m s)
  from visits_sub_subset[OF reached_step.hyps(2)] reached_step.IH
  show ?case by (rule subset_trans)
qed

lemma set_visits: "set (visits h root) = {m. reached h root m}"
  using visits_reached reached_visits visits_self by blast

lemma count_list_concat:
  "count_list (concat xss) c = sum_list (map (\<lambda>xs. count_list xs c) xss)"
  by (induction xss) simp_all

lemma count_list_map_snd:
  "count_list (map snd kvs) c = length (filter (\<lambda>kv. snd kv = c) kvs)"
  by (induction kvs) auto

lemma count_direct_models:
  "count_list (direct_models h m) c =
     (if is_pydantic_model h c
      then length (filter (\<lambda>kv. snd kv = c) (namespace (obj_at h m))) else 0)"
proof -
  let ?ns = "namespace (obj_at h m)"
  have "count_list (direct_models h m) c =
        length (filter (\<lambda>kv. snd kv = c)
          (filter (\<lambda>kv. is_pydantic_model h (snd kv)) (sort_key fst ?ns)))"
    by (simp add: direct_models_def getmembers_def count_list_map_snd)
  also have "\<dots> = length (filter (\<lambda>kv. snd kv = c \<and> is_pydantic_model h c) (sort_key fst ?ns))"
    by (simp add: conj_commute cong: conj_cong)
  also have "\<dots> = length (sort_key fst (filter (\<lambda>kv. snd kv = c \<and> is_pydantic_model h c) ?ns))"
    by (simp only: filter_sort)
  also have "\<dots> = (if is_pydantic_model h c
      then length (filter (\<lambda>kv. snd kv = c) ?ns) else 0)"
    by simp
  finally show ?thesis .
qed

text \<open>
  C1, as the code has it. The list returned for a root module is the concatenation, over
  the calls of the recursion in their order, of the models bound in the module of the
  call. The modules called on are exactly the modules reached from the root through
  submodule steps, and a module called on several times (it is a submodule member under
  several names, or of several modules called on) counts each time. So the list holds
  exactly the models bound in the root or in a reached module, a model is listed as many
  times as the calls list it, and a call lists it once for every attribute of its
  module that holds it: nothing is removed from the list, neither by identity nor by
  name.
\<close>

theorem extract_pydantic_models_visits:
  "extract_pydantic_models h root = concat (map (direct_models h) (visits h root)) \<and>
   set (visits h root) = {m. reached h root m} \<and>
   set (extract_pydantic_models h root) =
     {c. \<exists>m. reached h root m \<and> c \<in> set (direct_models h m)} \<and>
   count_list (extract_pydantic_models h root) c =
     sum_list (map (\<lambda>m. count_list (direct_models h m) c) (visits h root)) \<and>
   count_list (direct_models h m) c =
     (if is_pydantic_model h c
      then length (filter (\<lambda>kv. snd kv = c) (namespace (obj_at h m))) else 0)"
proof (intro conjI)
  show "extract_pydantic_models h root = concat (map (direct_models h) (visits h root))"
    by (rule extract_visits)
  show "set (visits h root) = {m. reached h root m}"
    by (rule set_visits)
  show "set (extract_pydantic_models h root) =
     {c. \<exists>m. reached h root m \<and> c \<in> set (direct_models h m)}"
    by (rule extract_pydantic_models_set)
  show "count_list (extract_pydantic_models h root) c =
     sum_list (map (\<lambda>m. count_list (direct_models h m) c) (visits h root))"
    by (simp add: extract_visits count_list_concat comp_def)
  show "count_list (direct_models h m) c =
     (if is_pydantic_model h c
      then length (filter (\<lambda>kv. snd kv = c) (namespace (obj_at h m))) else 0)"
    by (rule count_direct_models)
qed

theorem extract_pydantic_models_visits_witness:
  "visits heap_two_paths 1 = [1, 2, 3, 3] \<and>
   direct_models heap_two_paths 1 = [] \<and> direct_models heap_two_paths 2 = [] \<and>
   direct_models heap_two_paths 3 = [4, 4] \<and>
   extract_pydantic_models heap_two_paths 1 = [4, 4, 4, 4] \<and>
   count_list (extract_pydantic_models heap_two_paths 1) 4 = 4"
proof -
  have v: "visits heap_two_paths 1 = [1, 2, 3, 3]" by code_simp
  have d1: "direct_models heap_two_paths 1 = []" by code_simp
  have d2: "direct_models heap_two_paths 2 = []" by code_simp
  have d3: "direct_models heap_two_paths 3 = [4, 4]" by code_simp
  from extract_pydantic_models_visits[of heap_two_paths 1 4 1]
  have e: "extract_pydantic_models heap_two_paths 1 =
             concat (map (direct_models heap_two_paths) (visits heap_two_paths 1))"
    and c: "count_list (extract_pydantic_models heap_two_paths 1) 4 =
             sum_list (map (\<lambda>m. count_list (direct_models heap_two_paths m) 4)
               (visits heap_two_paths 1))"
    by blast+
  from e v d1 d2 d3 have e': "extract_pydantic_models heap_two_paths 1 = [4, 4, 4, 4]"
    by simp
  from c v d1 d2 d3 have c': "count_list (extract_pydantic_models heap_two_paths 1) 4 = 4"
    by simp
  from v d1 d2 d3 e' c' show ?thesis by (intro conjI)
qed

text \<open>
  The claim of a list without repetition fails: the class \<^verbatim>\<open>Foo\<close> is bound in \<^verbatim>\<open>pkg\<close> and
  in \<^verbatim>\<open>pkg.sub\<close>, and discovery from \<^verbatim>\<open>pkg\<close> lists it twice.
\<close>

theorem extract_pydantic_models_duplicate_counterexample:
  "extract_pydantic_models heap_shared 1 = [2, 2] \<and>
   \<not> distinct (extract_pydantic_models heap_shared 1)"
  by code_simp

section \<open>Properties of the container model\<close>

lemma update_fresh: "k \<notin> fst ` set d \<Longrightarrow> AList.update k v d = d @ [(k, v)]"
  by (induction d) auto

lemma remdups_append_dup:
  "m \<in> set ys \<Longrightarrow> remdups (xs @ m # ys) = remdups (xs @ ys)"
  by (induction xs) auto

lemma map_of_kw:
  "inj_on (getattr_name h) (set acc) \<Longrightarrow> m \<in> set acc \<Longrightarrow>
   map_of (map (\<lambda>m. (getattr_name h m, (m, Ellipsis))) acc) (getattr_name h m) = Some (m, Ellipsis)"
proof (induction acc)
  case Nil then show ?case by simp
next
  case (Cons a acc)
  show ?case
  proof (cases "getattr_name h a = getattr_name h m")
    case True
    with Cons.prems have "a = m" by (auto dest: inj_onD)
    then show ?thesis by simp
  next
    case False
    with Cons show ?thesis by auto
  qed
qed

lemma isclass_name: "isclass h m \<Longrightarrow> dunder_name (obj_at h m) = Some (getattr_name h m)"
  by (auto simp: isclass_def getattr_name_def split: pyobj.splits)

lemma master_fields_acc:
  assumes "\<forall>m \<in> set ms. isclass h m"
    and "inj_on (getattr_name h) (set acc \<union> set ms)"
    and "distinct acc"
  shows "master_fields h ms (map (\<lambda>m. (getattr_name h m, (m, Ellipsis))) acc) =
         Inr (map (\<lambda>m. (getattr_name h m, (m, Ellipsis))) (rev (remdups (rev (acc @ ms)))))"
  using assms
proof (induction ms arbitrary: acc)
  case Nil
  then show ?case by (simp add: distinct_remdups_id)
next
  case (Cons m ms)
  let ?kw = "\<lambda>m. (getattr_name h m, (m, Ellipsis))"
  have nm: "dunder_name (obj_at h m) = Some (getattr_name h m)"
    using Cons.prems(1) by (simp add: isclass_name)
  show ?case
  proof (cases "m \<in> set acc")
    case True
    have inj: "inj_on (getattr_name h) (set acc)"
      using Cons.prems(2) by (rule inj_on_subset) auto
    have "AList.update (getattr_name h m) (m, Ellipsis) (map ?kw acc) = map ?kw acc"
      by (rule AList.update_triv) (rule map_of_kw[OF inj True])
    moreover have "inj_on (getattr_name h) (set acc \<union> set ms)"
      using Cons.prems(2) by (rule inj_on_subset) auto
    moreover have "rev (remdups (rev (acc @ m # ms))) = rev (remdups (rev (acc @ ms)))"
      using True by (simp add: remdups_append_dup)
    ultimately show ?thesis
      using Cons.IH[of acc] Cons.prems(1,3) nm by simp
  next
    case False
    have "getattr_name h m \<notin> fst ` set (map ?kw acc)"
    proof
      assume "getattr_name h m \<in> fst ` set (map ?kw acc)"
      then obtain a where a: "a \<in> set acc" "getattr_name h a = getattr_name h m" by auto
      from inj_onD[OF Cons.prems(2) a(2)] a(1) have "a = m" by simp
      with a False show False by simp
    qed
    then have "AList.update (getattr_name h m) (m, Ellipsis) (map ?kw acc) = map ?kw (acc @ [m])"
      by (simp add: update_fresh)
    moreover have "inj_on (getattr_name h) (set (acc @ [m]) \<union> set ms)"
      using Cons.prems(2) by (rule inj_on_subset) auto
    moreover have "distinct (acc @ [m])" using False Cons.prems(3) by simp
    ultimately show ?thesis
      using Cons.IH[of "acc @ [m]"] Cons.prems(1) nm by simp
  qed
qed

lemma create_model_accepted:
  assumes "\<forall>kv \<in> set kwargs. \<not> startswith (fst kv) ''_'' \<and> fst kv \<notin> set base_attrs"
  shows "create_model base_attrs name kwargs =
     Inr \<lparr>model_name = name,
          model_fields = map (\<lambda>kv. \<lparr>field_name = fst kv, field_type = fst (snd kv),
                                    field_required = (snd (snd kv) = Ellipsis)\<rparr>) kwargs\<rparr>"
proof -
  have root: "startswith ''__root__'' ''_''" by (simp add: startswith_def)
  have keep: "filter (\<lambda>kv. is_valid_field (fst kv)) kwargs = kwargs"
    using assms by (simp add: is_valid_field_def)
  have "\<not> list_ex (\<lambda>kv. fst kv \<in> set base_attrs) kwargs"
    using assms by (simp add: list_ex_iff)
  moreover have "\<not> list_ex (\<lambda>kv. fst kv = ''__root__'') kwargs"
    using assms root by (auto simp: list_ex_iff)
  ultimately show ?thesis
    by (simp add: create_model_def keep)
qed

text \<open>
  C9, as the code has it. When the models are models as discovery collects them,
  different models have different class names, and no class name is a name under which
  \<^verbatim>\<open>BaseModel\<close> has an attribute, the container is built and has one field for each
  discovered model, in the order of first discovery (\<open>rev (remdups (rev models))\<close> keeps
  the first occurrence of each), named by the model's class name, typed as that model
  and required.
\<close>

theorem master_model_fields:
  assumes "\<forall>m \<in> set models. is_pydantic_model h m"
    and "inj_on (getattr_name h) (set models)"
    and "\<forall>m \<in> set models. getattr_name h m \<notin> set base_attrs"
  shows "master_model base_attrs h models =
     Inr \<lparr>model_name = ''_Master_'',
          model_fields = map (\<lambda>m. \<lparr>field_name = getattr_name h m, field_type = m,
                                     field_required = True\<rparr>)
                             (rev (remdups (rev models)))\<rparr>"
proof -
  let ?kw = "\<lambda>m. (getattr_name h m, (m, Ellipsis))"
  let ?ms = "rev (remdups (rev models))"
  have cls: "\<forall>m \<in> set models. isclass h m"
    using assms(1) by (simp add: is_pydantic_model_def)
  have kwargs: "master_fields h models [] = Inr (map ?kw ?ms)"
    using master_fields_acc[of models h "[]"] cls assms(2) by simp
  have "\<forall>kv \<in> set (map ?kw ?ms). \<not> startswith (fst kv) ''_'' \<and> fst kv \<notin> set base_attrs"
    using assms(1,3) by (auto simp: is_pydantic_model_def not_private_def)
  from create_model_accepted[OF this] kwargs show ?thesis
    by (simp add: master_model_def comp_def)
qed

theorem master_model_fields_witness:
  "is_pydantic_model heap_shared 2 \<and>
   getattr_name heap_shared 2 \<notin> set some_base_attrs \<and>
   extract_pydantic_models heap_shared 1 = [2, 2] \<and>
   master_model some_base_attrs heap_shared [2, 2] =
     Inr \<lparr>model_name = ''_Master_'',
          model_fields = [\<lparr>field_name = ''Foo'', field_type = 2, field_required = True\<rparr>]\<rparr>"
proof -
  have c: "is_pydantic_model heap_shared 2" by code_simp
  then have a: "\<forall>m \<in> set [2, 2]. is_pydantic_model heap_shared m" by simp
  have b: "inj_on (getattr_name heap_shared) (set [2, 2])" by simp
  have n: "getattr_name heap_shared 2 = ''Foo''" by code_simp
  have r: "getattr_name heap_shared 2 \<notin> set some_base_attrs" by code_simp
  then have r': "\<forall>m \<in> set [2, 2]. getattr_name heap_shared m \<notin> set some_base_attrs"
    by simp
  have e: "extract_pydantic_models heap_shared 1 = [2, 2]" by code_simp
  from master_model_fields[OF a b r'] n
  have "master_model some_base_attrs heap_shared [2, 2] =
     Inr \<lparr>model_name = ''_Master_'',
          model_fields = [\<lparr>field_name = ''Foo'', field_type = 2, field_required = True\<rparr>]\<rparr>"
    by simp
  with c r e show ?thesis by (intro conjI)
qed

text \<open>
  The claim of one field per discovered model fails when two models share a class name:
  \<^verbatim>\<open>pkg.a.Foo\<close> and \<^verbatim>\<open>pkg.b.Foo\<close> are both discovered, and the container has the single
  field \<^verbatim>\<open>Foo\<close>, typed as the second; no field is typed as the first.
\<close>

theorem master_model_homonyms_counterexample:
  "extract_pydantic_models heap_homonyms 3 = [1, 2] \<and>
   master_model some_base_attrs heap_homonyms [1, 2] =
     Inr \<lparr>model_name = ''_Master_'',
          model_fields = [\<lparr>field_name = ''Foo'', field_type = 2, field_required = True\<rparr>]\<rparr>"
  by code_simp

text \<open>
  A discovered model whose class name shadows an attribute of \<^verbatim>\<open>BaseModel\<close> gives no
  container: \<^verbatim>\<open>create_model\<close> raises \<^verbatim>\<open>NameError\<close>.
\<close>

lemma master_model_shadow_raises:
  "extract_pydantic_models heap_shadow 1 = [2] \<and>
   master_model some_base_attrs heap_shadow [2] = Inl NameError"
  by code_simp

section \<open>Properties of the container removal\<close>

lemma find_block_no_start:
  "\<forall>l \<in> set ls. \<not> is_start_line l \<Longrightarrow> find_block i None ls = (None, None)"
  by (induction ls arbitrary: i) auto

lemma find_block_skip_pre:
  "\<forall>l \<in> set pre. \<not> is_start_line l \<Longrightarrow>
   find_block i None (pre @ rest) = find_block (i + length pre) None rest"
  by (induction pre arbitrary: i) auto

lemma find_block_skip_mid:
  "\<forall>l \<in> set mid. \<not> is_start_line l \<and> \<not> is_end_line l \<Longrightarrow>
   find_block i st (mid @ rest) = find_block (i + length mid) st rest"
  by (induction mid arbitrary: i) auto

lemma start_not_end: "is_start_line l \<Longrightarrow> \<not> is_end_line l"
  by (auto simp: is_start_line_def is_end_line_def)

lemma find_block_found:
  assumes "\<forall>l \<in> set pre. \<not> is_start_line l" "is_start_line s"
    "\<forall>l \<in> set mid. \<not> is_start_line l \<and> \<not> is_end_line l" "is_end_line e"
  shows "find_block 0 None (pre @ [s] @ mid @ [e] @ post) =
         (Some (length pre), Some (length pre + 1 + length mid))"
proof -
  have e: "\<not> is_start_line e" using assms(4) start_not_end by blast
  have "find_block 0 None (pre @ [s] @ mid @ [e] @ post) =
        find_block (length pre) None (s # mid @ e # post)"
    using find_block_skip_pre[OF assms(1), of 0] by simp
  also have "\<dots> = find_block (Suc (length pre)) (Some (length pre)) (mid @ e # post)"
    using assms(2) by simp
  also have "\<dots> = find_block (Suc (length pre) + length mid) (Some (length pre)) (e # post)"
    by (rule find_block_skip_mid[OF assms(3)])
  also have "\<dots> = (Some (length pre), Some (length pre + 1 + length mid))"
    using e assms(4) by simp
  finally show ?thesis .
qed

lemma new_lines_found:
  assumes "\<forall>l \<in> set pre. \<not> is_start_line l" "is_start_line s"
    "\<forall>l \<in> set mid. \<not> is_start_line l \<and> \<not> is_end_line l" "is_end_line e"
  shows "new_lines (pre @ [s] @ mid @ [e] @ post) = Inr (pre @ post)"
proof -
  have "drop (length pre + 1 + length mid + 1) (pre @ [s] @ mid @ [e] @ post) = post"
    by simp
  then show ?thesis
    unfolding new_lines_def find_block_found[OF assms] by (simp add: Let_def)
qed

text \<open>
  C4, as the code has it. When the lines read from the file are: lines none of which is
  the start line, then the start line, then lines none of which is the start line or the
  \<^verbatim>\<open>}\<close> line, then the \<^verbatim>\<open>}\<close> line, then any lines, the removal returns and leaves in the
  file the lines before the start line followed by the lines after that \<^verbatim>\<open>}\<close> line. The
  start line is then the first one, the \<^verbatim>\<open>}\<close> line the first after it, and no second
  start line stands between them. A line is compared without its line end.
\<close>

theorem remove_master_block:
  assumes "fs path = Some content"
    and "readlines content = pre @ [s] @ mid @ [e] @ post"
    and "\<forall>l \<in> set pre. \<not> is_start_line l"
    and "is_start_line s"
    and "\<forall>l \<in> set mid. \<not> is_start_line l \<and> \<not> is_end_line l"
    and "is_end_line e"
  shows "remove_master_model_from_output path fs =
           (Inr (), fs(path \<mapsto> concat (pre @ post)))"
  using assms(1,2) new_lines_found[OF assms(3-6), of post]
  by (simp add: remove_master_model_from_output_def)

theorem remove_master_block_witness:
  "is_start_line (''export interface _Master_ {'' @ [LF]) \<and>
   is_end_line (''}'' @ [LF]) \<and>
   remove_master_model_from_output ''out.ts'' [''out.ts'' \<mapsto> generated_two_models] =
     (Inr (), [''out.ts'' \<mapsto>
        ''/* tslint:disable */'' @ [LF] @ ''export interface Foo {'' @ [LF] @
        ''  a: number;'' @ [LF] @ ''}'' @ [LF]])"
proof -
  let ?pre = "[''/* tslint:disable */'' @ [LF], ''export interface Foo {'' @ [LF],
               ''  a: number;'' @ [LF], ''}'' @ [LF]]"
  let ?s = "''export interface _Master_ {'' @ [LF]"
  let ?mid = "[''  Foo: Foo;'' @ [LF]]"
  let ?e = "''}'' @ [LF]"
  have f: "[''out.ts'' \<mapsto> generated_two_models] ''out.ts'' = Some generated_two_models"
    by simp
  have r: "readlines generated_two_models = ?pre @ [?s] @ ?mid @ [?e] @ []" by code_simp
  have p: "\<forall>l \<in> set ?pre. \<not> is_start_line l" by code_simp
  have s: "is_start_line ?s" by code_simp
  have m: "\<forall>l \<in> set ?mid. \<not> is_start_line l \<and> \<not> is_end_line l" by code_simp
  have e: "is_end_line ?e" by code_simp
  from remove_master_block[where fs = "[''out.ts'' \<mapsto> generated_two_models]"
      and path = "''out.ts''", OF f r p s m e] s e
  show ?thesis by simp
qed

text \<open>
  The claim with the first start line fails when a second start line stands before the
  closing \<^verbatim>\<open>}\<close> line: the loop assigns \<^verbatim>\<open>start\<close> again, and the first start line
  stays in the file, where the specification's content is empty.
\<close>

theorem remove_master_first_start_counterexample:
  "list_ex is_start_line (readlines generated_two_starts) \<and>
   spec_new_lines (readlines generated_two_starts) = [] \<and>
   remove_master_model_from_output ''out.ts'' [''out.ts'' \<mapsto> generated_two_starts] =
     (Inr (), [''out.ts'' \<mapsto> ''export interface _Master_ {'' @ [LF]])"
proof -
  have "new_lines (readlines generated_two_starts) =
          Inr [''export interface _Master_ {'' @ [LF]]" by code_simp
  moreover have "list_ex is_start_line (readlines generated_two_starts)" by code_simp
  moreover have "spec_new_lines (readlines generated_two_starts) = []" by code_simp
  ultimately show ?thesis by (simp add: remove_master_model_from_output_def)
qed

text \<open>
  C2, as the code has it. When no line of the file is the start line, \<^verbatim>\<open>end\<close> is still
  \<^verbatim>\<open>None\<close> after the loop, \<^verbatim>\<open>end + 1\<close> raises \<^verbatim>\<open>TypeError\<close>, and the file is left
  as it was: it is not written.
\<close>

theorem remove_master_without_start:
  assumes "fs path = Some content"
    and "\<forall>l \<in> set (readlines content). \<not> is_start_line l"
  shows "remove_master_model_from_output path fs = (Inl TypeError, fs)"
  using assms find_block_no_start[OF assms(2), of 0]
  by (simp add: remove_master_model_from_output_def new_lines_def Let_def)

theorem remove_master_without_start_witness:
  "\<not> list_ex is_start_line (readlines generated_no_container) \<and>
   remove_master_model_from_output ''out.ts'' [''out.ts'' \<mapsto> generated_no_container] =
     (Inl TypeError, [''out.ts'' \<mapsto> generated_no_container])"
proof -
  have f: "[''out.ts'' \<mapsto> generated_no_container] ''out.ts'' = Some generated_no_container"
    by simp
  have n: "\<not> list_ex is_start_line (readlines generated_no_container)" by code_simp
  then have "\<forall>l \<in> set (readlines generated_no_container). \<not> is_start_line l"
    by (simp add: list_ex_iff)
  from remove_master_without_start[where fs = "[''out.ts'' \<mapsto> generated_no_container]"
      and path = "''out.ts''", OF f this] n
  show ?thesis by simp
qed

text \<open>
  The claim of a silent completion fails: on a generated file without the container the
  removal raises \<^verbatim>\<open>TypeError\<close>.
\<close>

theorem remove_master_silent_counterexample:
  "\<not> list_ex is_start_line (readlines generated_no_container) \<and>
   fst (remove_master_model_from_output ''out.ts'' [''out.ts'' \<mapsto> generated_no_container])
     = Inl TypeError"
proof -
  have "new_lines (readlines generated_no_container) = Inl TypeError" by code_simp
  moreover have "\<not> list_ex is_start_line (readlines generated_no_container)" by code_simp
  ultimately show ?thesis by (simp add: remove_master_model_from_output_def)
qed

end
